theory Spec2Isabelle
  imports Complex_Main "HOL-Library.AList"
begin

section \<open>The retrieval layer of \<^verbatim>\<open>knowledge/rag_manager.py\<close>\<close>

text \<open>
  The development embeds the classes \<^verbatim>\<open>EmbeddingCache\<close> and \<^verbatim>\<open>RAGManager\<close>.
  Modelling decisions:
  \<^item> A Python \<^verbatim>\<open>str\<close> is a \<open>string\<close> whose characters are the code points U+0000 to
    U+00FF; \<^verbatim>\<open>lower\<close>, \<^verbatim>\<open>split\<close> and \<^verbatim>\<open>in\<close> are what Python computes on such text.
    Text with a code point above U+00FF is outside the model.
  \<^item> An embedding (\<^verbatim>\<open>np.ndarray\<close>) is the list of its components; a score is a
    \<open>pyfloat\<close>: a number, NaN or an infinity.
  \<^item> What the libraries compute is not computed here but taken as a parameter: the
    numpy operations and the order \<^verbatim>\<open>list.sort\<close> gives to keys with a NaN (\<open>rt\<close>),
    the digest function of \<^verbatim>\<open>hashlib.md5\<close> (\<open>h\<close>), the outcome of loading the sentence
    transformer (\<open>loader\<close>: \<open>None\<close> when the constructor raises) and the outcome of
    each write of the cache file. A loaded model is a function from text to a vector,
    \<open>None\<close> when \<^verbatim>\<open>encode\<close> raises.
  \<^item> An exception that leaves a method is a value \<open>Inl e\<close>; methods that assign to
    \<^verbatim>\<open>self\<close> return the new state.
  \<^item> The metadata file, which never changes, is left out.
\<close>

subsection \<open>Data model\<close>

type_synonym vec = "real list"

datatype pyfloat = Num real | NaN | PosInf | NegInf

datatype py_error = ZeroDivisionError

record APIDocEntry =
  api_name :: string
  library :: string
  signature :: string
  description :: string
  parameters :: "(string \<times> string) list"
  returns :: string
  example :: string
  usage_context :: string
  related_apis :: "string list"
  common_pitfalls :: string
  embedding :: "vec option"

record SearchResult =
  api_doc :: APIDocEntry
  similarity_score :: pyfloat
  match_type :: string

text \<open>
  \<^verbatim>\<open>EmbeddingCache\<close>: the dictionary \<^verbatim>\<open>self.cache\<close> in insertion order, and what a
  later \<^verbatim>\<open>_load_cache\<close> would read from the pickle file: \<open>None\<close> when there is no file
  or it cannot be read (the load then starts from an empty dictionary).
\<close>

record EmbeddingCache =
  cache :: "(string \<times> vec) list"
  cache_file :: "(string \<times> vec) list option"

text \<open>
  What one run of \<^verbatim>\<open>_save_cache\<close> does to the file. \<open>Written\<close>: both dumps succeed.
  \<open>Failed f\<close>: an exception is raised, logged and swallowed, and \<open>f\<close> is what the file
  holds afterwards (the old content when \<^verbatim>\<open>open\<close> fails, nothing readable when the dump
  fails after \<^verbatim>\<open>open\<close> has truncated the file).
\<close>

datatype write_outcome = Written | Failed "(string \<times> vec) list option"

type_synonym model = "string \<Rightarrow> vec option"

record RAGManager =
  api_docs :: "APIDocEntry list"
  embedding_model :: "model option"
  embedding_cache :: EmbeddingCache

text \<open>
  The library operations on floats, as the interpreter at hand computes them:
  \<^verbatim>\<open>np.dot\<close> (\<open>None\<close> when it raises, as it does for arrays of different lengths),
  \<^verbatim>\<open>np.linalg.norm\<close>, the product and the quotient of two numpy floats (a zero divisor
  raises nothing), and the list \<^verbatim>\<open>list.sort(key=..., reverse=True)\<close> makes of results
  among whose keys there is a NaN.
\<close>

record runtime =
  np_dot :: "vec \<Rightarrow> vec \<Rightarrow> pyfloat option"
  np_norm :: "vec \<Rightarrow> pyfloat"
  np_mul :: "pyfloat \<Rightarrow> pyfloat \<Rightarrow> pyfloat"
  np_div :: "pyfloat \<Rightarrow> pyfloat \<Rightarrow> pyfloat"
  sort_nan :: "SearchResult list \<Rightarrow> SearchResult list"

subsection \<open>Python primitives\<close>

text \<open>
  \<^verbatim>\<open>str.lower\<close> on the code points below U+0100: the letters A to Z and U+00C0 to
  U+00DE without the multiplication sign U+00D7 move up by 32, all others stay.
\<close>

definition lower_char :: "char \<Rightarrow> char" where
  "lower_char c =
     (case map_of
        (zip (''ABCDEFGHIJKLMNOPQRSTUVWXYZ''
              @ [CHR 0xC0, CHR 0xC1, CHR 0xC2, CHR 0xC3, CHR 0xC4, CHR 0xC5, CHR 0xC6, CHR 0xC7,
                 CHR 0xC8, CHR 0xC9, CHR 0xCA, CHR 0xCB, CHR 0xCC, CHR 0xCD, CHR 0xCE, CHR 0xCF,
                 CHR 0xD0, CHR 0xD1, CHR 0xD2, CHR 0xD3, CHR 0xD4, CHR 0xD5, CHR 0xD6,
                 CHR 0xD8, CHR 0xD9, CHR 0xDA, CHR 0xDB, CHR 0xDC, CHR 0xDD, CHR 0xDE])
             (''abcdefghijklmnopqrstuvwxyz''
              @ [CHR 0xE0, CHR 0xE1, CHR 0xE2, CHR 0xE3, CHR 0xE4, CHR 0xE5, CHR 0xE6, CHR 0xE7,
                 CHR 0xE8, CHR 0xE9, CHR 0xEA, CHR 0xEB, CHR 0xEC, CHR 0xED, CHR 0xEE, CHR 0xEF,
                 CHR 0xF0, CHR 0xF1, CHR 0xF2, CHR 0xF3, CHR 0xF4, CHR 0xF5, CHR 0xF6,
                 CHR 0xF8, CHR 0xF9, CHR 0xFA, CHR 0xFB, CHR 0xFC, CHR 0xFD, CHR 0xFE])) c of
        None \<Rightarrow> c | Some d \<Rightarrow> d)"

definition lower :: "string \<Rightarrow> string" where
  "lower s = map lower_char s"

text \<open>
  The code points below U+0100 that \<^verbatim>\<open>str.split()\<close> takes for white space: 9 to 13,
  28 to 32, U+0085 and U+00A0.
\<close>

definition is_space :: "char \<Rightarrow> bool" where
  "is_space c = (c \<in> set [CHR 0x09, CHR 0x0A, CHR 0x0B, CHR 0x0C, CHR 0x0D,
                          CHR 0x1C, CHR 0x1D, CHR 0x1E, CHR 0x1F, CHR '' '',
                          CHR 0x85, CHR 0xA0])"

text \<open>
  \<^verbatim>\<open>str.split()\<close> without argument: the maximal runs of non-space characters.
  \<open>cur\<close> is the token being read.
\<close>

fun split_aux :: "string \<Rightarrow> string \<Rightarrow> string list" where
  "split_aux cur [] = (if cur = [] then [] else [cur])"
| "split_aux cur (c # cs) =
     (if is_space c then (if cur = [] then split_aux [] cs else cur # split_aux [] cs)
      else split_aux (cur @ [c]) cs)"

definition split :: "string \<Rightarrow> string list" where
  "split s = split_aux [] s"

text \<open>\<^verbatim>\<open>needle in hay\<close> on strings: \<open>needle\<close> occurs as a contiguous substring.\<close>

fun is_prefix :: "string \<Rightarrow> string \<Rightarrow> bool" where
  "is_prefix [] ys = True"
| "is_prefix (x # xs) [] = False"
| "is_prefix (x # xs) (y # ys) = (x = y \<and> is_prefix xs ys)"

fun str_in :: "string \<Rightarrow> string \<Rightarrow> bool" where
  "str_in needle [] = (needle = [])"
| "str_in needle (y # ys) = (is_prefix needle (y # ys) \<or> str_in needle ys)"

text \<open>
  True division of two \<^verbatim>\<open>int\<close>s (here lengths and counts): raises
  \<^verbatim>\<open>ZeroDivisionError\<close> on a zero divisor.
\<close>

definition py_truediv :: "nat \<Rightarrow> nat \<Rightarrow> py_error + pyfloat" where
  "py_truediv a b = (if b = 0 then Inl ZeroDivisionError else Inr (Num (real a / real b)))"

text \<open>Comparisons of floats: every comparison with NaN is false.\<close>

fun float_lt :: "pyfloat \<Rightarrow> pyfloat \<Rightarrow> bool" where
  "float_lt (Num x) (Num y) = (x < y)"
| "float_lt (Num x) PosInf = True"
| "float_lt NegInf (Num y) = True"
| "float_lt NegInf PosInf = True"
| "float_lt _ _ = False"

fun float_ge :: "pyfloat \<Rightarrow> pyfloat \<Rightarrow> bool" where
  "float_ge (Num x) (Num y) = (y \<le> x)"
| "float_ge (Num x) NegInf = True"
| "float_ge PosInf (Num y) = True"
| "float_ge PosInf PosInf = True"
| "float_ge PosInf NegInf = True"
| "float_ge NegInf NegInf = True"
| "float_ge _ _ = False"

text \<open>
  \<^verbatim>\<open>results.sort(key=lambda x: x.similarity_score, reverse=True)\<close> on keys without a
  NaN: a stable sort into descending order, elements of equal score keeping their
  order, written as an insertion sort.
\<close>

fun insort_desc :: "SearchResult \<Rightarrow> SearchResult list \<Rightarrow> SearchResult list" where
  "insort_desc x [] = [x]"
| "insort_desc x (y # ys) =
     (if float_lt (similarity_score x) (similarity_score y) then y # insort_desc x ys
      else x # y # ys)"

definition sort_desc :: "SearchResult list \<Rightarrow> SearchResult list" where
  "sort_desc xs = foldr insort_desc xs []"

text \<open>
  The same call on any keys. A list of at most one element is left as it is; where a
  key is NaN the comparisons are not an order and the result is the one the
  interpreter makes. Only the semantic strategy can meet a NaN key: the keyword and
  the context scores are quotients of counts and the fused list holds scores that
  passed the threshold (lemmas \<open>keyword_loop_no_nan\<close>, \<open>context_loop_no_nan\<close> and
  \<open>unique_loop_no_nan\<close>), so the other three sorts are written with \<open>sort_desc\<close>.
\<close>

definition list_sort :: "runtime \<Rightarrow> SearchResult list \<Rightarrow> SearchResult list" where
  "list_sort rt xs =
     (if length xs \<le> 1 \<or> list_all (\<lambda>r. similarity_score r \<noteq> NaN) xs then sort_desc xs
      else sort_nan rt xs)"

text \<open>The slice \<^verbatim>\<open>xs[:k]\<close>: a negative \<open>k\<close> counts from the end.\<close>

definition slice_to :: "'a list \<Rightarrow> int \<Rightarrow> 'a list" where
  "slice_to xs k = (if 0 \<le> k then take (nat k) xs else take (length xs - nat (- k)) xs)"

subsection \<open>\<^verbatim>\<open>EmbeddingCache\<close>\<close>

text \<open>
  \<^verbatim>\<open>_get_cache_key\<close>: the hexadecimal MD5 digest of the UTF-8 encoding of the text;
  \<open>h\<close> is that digest function.
\<close>

definition get_cache_key :: "(string \<Rightarrow> string) \<Rightarrow> string \<Rightarrow> string" where
  "get_cache_key h text = h text"

text \<open>\<^verbatim>\<open>_save_cache\<close>: \<open>out\<close> is the outcome of this write.\<close>

definition save_cache :: "write_outcome \<Rightarrow> EmbeddingCache \<Rightarrow> EmbeddingCache" where
  "save_cache out c =
     c\<lparr>cache_file := (case out of Written \<Rightarrow> Some (cache c) | Failed f \<Rightarrow> f)\<rparr>"

definition cache_get :: "(string \<Rightarrow> string) \<Rightarrow> EmbeddingCache \<Rightarrow> string \<Rightarrow> vec option" where
  "cache_get h c text = map_of (cache c) (get_cache_key h text)"

text \<open>
  \<^verbatim>\<open>set\<close>: the assignment \<^verbatim>\<open>self.cache[key] = embedding\<close> replaces the value of a key
  that is present and appends a new key; \<^verbatim>\<open>_save_cache\<close> is called when the number of
  entries is then a multiple of 10, and \<open>out\<close> is the outcome of that write.
\<close>

definition cache_set ::
  "(string \<Rightarrow> string) \<Rightarrow> write_outcome \<Rightarrow> EmbeddingCache \<Rightarrow> string \<Rightarrow> vec \<Rightarrow> EmbeddingCache" where
  "cache_set h out c text e =
     (let c' = c\<lparr>cache := AList.update (get_cache_key h text) e (cache c)\<rparr>
      in if length (cache c') mod 10 = 0 then save_cache out c' else c')"





subsection \<open>\<^verbatim>\<open>RAGManager\<close>: lookups\<close>

fun get_api_by_name :: "APIDocEntry list \<Rightarrow> string \<Rightarrow> APIDocEntry option" where
  "get_api_by_name [] n = None"
| "get_api_by_name (d # ds) n = (if api_name d = n then Some d else get_api_by_name ds n)"

text \<open>The loop of \<^verbatim>\<open>get_related_apis\<close>; \<open>related\<close> is the list built so far.\<close>

fun related_loop :: "APIDocEntry list \<Rightarrow> string list \<Rightarrow> APIDocEntry list \<Rightarrow> APIDocEntry list" where
  "related_loop docs [] related = related"
| "related_loop docs (related_name # names) related =
     (case get_api_by_name docs related_name of
        None \<Rightarrow> related_loop docs names related
      | Some related_api \<Rightarrow> related_loop docs names (related @ [related_api]))"

definition get_related_apis :: "RAGManager \<Rightarrow> string \<Rightarrow> APIDocEntry list" where
  "get_related_apis st n =
     (case get_api_by_name (api_docs st) n of
        None \<Rightarrow> []
      | Some d \<Rightarrow> related_loop (api_docs st) (related_apis d) [])"

subsection \<open>\<^verbatim>\<open>RAGManager\<close>: the three strategies\<close>

text \<open>
  \<^verbatim>\<open>_init_embedding_model\<close>: \<open>loader\<close> is what the constructor of the sentence
  transformer gives, \<open>None\<close> when it raises.
\<close>

definition init_embedding_model :: "model option \<Rightarrow> RAGManager \<Rightarrow> RAGManager" where
  "init_embedding_model loader st =
     (if embedding_model st = None then st\<lparr>embedding_model := loader\<rparr> else st)"

text \<open>
  The loop of \<^verbatim>\<open>_semantic_search\<close>, before sorting. \<open>None\<close>: an exception of
  \<^verbatim>\<open>np.dot\<close>, which the method catches.
\<close>

fun semantic_loop :: "runtime \<Rightarrow> vec \<Rightarrow> APIDocEntry list \<Rightarrow> SearchResult list option" where
  "semantic_loop rt q [] = Some []"
| "semantic_loop rt q (d # ds) =
     (case embedding d of
        None \<Rightarrow> semantic_loop rt q ds
      | Some e \<Rightarrow>
          (case np_dot rt q e of
             None \<Rightarrow> None
           | Some p \<Rightarrow>
               (case semantic_loop rt q ds of
                  None \<Rightarrow> None
                | Some rs \<Rightarrow>
                    Some (\<lparr>api_doc = d,
                           similarity_score =
                             np_div rt p (np_mul rt (np_norm rt q) (np_norm rt e)),
                           match_type = ''semantic''\<rparr> # rs))))"

definition semantic_search ::
  "runtime \<Rightarrow> model option \<Rightarrow> RAGManager \<Rightarrow> string \<Rightarrow> int
     \<Rightarrow> SearchResult list \<times> RAGManager" where
  "semantic_search rt loader st query top_k =
     (let st' = init_embedding_model loader st in
      case embedding_model st' of
        None \<Rightarrow> ([], st')
      | Some m \<Rightarrow>
          (case m query of
             None \<Rightarrow> ([], st')
           | Some q \<Rightarrow>
               (case semantic_loop rt q (api_docs st') of
                  None \<Rightarrow> ([], st')
                | Some rs \<Rightarrow> (slice_to (list_sort rt rs) top_k, st'))))"

text \<open>
  The inner loop of \<^verbatim>\<open>_keyword_search\<close> over the set of query words: one for a word
  found in the search text, one more when it is also in the name.
\<close>

fun count_matches :: "string list \<Rightarrow> string \<Rightarrow> string \<Rightarrow> nat" where
  "count_matches [] search_text name = 0"
| "count_matches (w # ws) search_text name =
     (if str_in w search_text then (if str_in w name then 2 else 1) else 0)
     + count_matches ws search_text name"

fun keyword_loop :: "string list \<Rightarrow> APIDocEntry list \<Rightarrow> py_error + SearchResult list" where
  "keyword_loop query_words [] = Inr []"
| "keyword_loop query_words (d # ds) =
     (let search_text = lower (api_name d @ '' '' @ description d @ '' '' @ signature d);
          matches = count_matches query_words search_text (lower (api_name d))
      in if 0 < matches then
           (case py_truediv matches (length query_words) of
              Inl e \<Rightarrow> Inl e
            | Inr score \<Rightarrow>
                (case keyword_loop query_words ds of
                   Inl e \<Rightarrow> Inl e
                 | Inr rs \<Rightarrow>
                     Inr (\<lparr>api_doc = d, similarity_score = score,
                            match_type = ''keyword''\<rparr> # rs)))
         else keyword_loop query_words ds)"

text \<open>The set \<^verbatim>\<open>query_words\<close> is the list of distinct tokens.\<close>

definition keyword_search :: "RAGManager \<Rightarrow> string \<Rightarrow> int \<Rightarrow> py_error + SearchResult list" where
  "keyword_search st query top_k =
     (case keyword_loop (remdups (split (lower query))) (api_docs st) of
        Inl e \<Rightarrow> Inl e
      | Inr rs \<Rightarrow> Inr (slice_to (sort_desc rs) top_k))"

fun context_loop :: "string \<Rightarrow> APIDocEntry list \<Rightarrow> py_error + SearchResult list" where
  "context_loop query_lower [] = Inr []"
| "context_loop query_lower (d # ds) =
     (let context_text = lower (usage_context d)
      in if str_in query_lower context_text
            \<or> list_ex (\<lambda>word. str_in word context_text) (split query_lower) then
           (case py_truediv
                   (length (filter (\<lambda>w. w \<in> set (split context_text))
                              (remdups (split query_lower))))
                   (length (split query_lower)) of
              Inl e \<Rightarrow> Inl e
            | Inr score \<Rightarrow>
                (case context_loop query_lower ds of
                   Inl e \<Rightarrow> Inl e
                 | Inr rs \<Rightarrow>
                     Inr (\<lparr>api_doc = d, similarity_score = score,
                            match_type = ''context''\<rparr> # rs)))
         else context_loop query_lower ds)"

definition context_search :: "RAGManager \<Rightarrow> string \<Rightarrow> int \<Rightarrow> py_error + SearchResult list" where
  "context_search st query top_k =
     (case context_loop (lower query) (api_docs st) of
        Inl e \<Rightarrow> Inl e
      | Inr rs \<Rightarrow> Inr (slice_to (sort_desc rs) top_k))"

subsection \<open>\<^verbatim>\<open>RAGManager.search_apis\<close>\<close>

text \<open>
  The loop that deduplicates and filters: \<open>seen_apis\<close> and \<open>unique_results\<close> are the
  two variables of the source.
\<close>

fun unique_loop ::
  "real \<Rightarrow> SearchResult list \<Rightarrow> string set \<Rightarrow> SearchResult list \<Rightarrow> SearchResult list" where
  "unique_loop min_similarity [] seen_apis unique_results = unique_results"
| "unique_loop min_similarity (r # rs) seen_apis unique_results =
     (if api_name (api_doc r) \<notin> seen_apis
         \<and> float_ge (similarity_score r) (Num min_similarity) then
        unique_loop min_similarity rs (insert (api_name (api_doc r)) seen_apis)
          (unique_results @ [r])
      else unique_loop min_similarity rs seen_apis unique_results)"

text \<open>The part of \<^verbatim>\<open>search_apis\<close> after the three candidate lists are joined.\<close>

definition fuse :: "SearchResult list \<Rightarrow> int \<Rightarrow> real \<Rightarrow> SearchResult list" where
  "fuse results top_k min_similarity =
     slice_to (sort_desc (unique_loop min_similarity results {} [])) top_k"

definition search_apis ::
  "runtime \<Rightarrow> model option \<Rightarrow> RAGManager \<Rightarrow> string \<Rightarrow> int \<Rightarrow> real
     \<Rightarrow> (py_error + SearchResult list) \<times> RAGManager" where
  "search_apis rt loader st query top_k min_similarity =
     (if api_docs st = [] then (Inr [], st)
      else
        (case semantic_search rt loader st query (top_k * 2) of
           (semantic_results, st1) \<Rightarrow>
             (case keyword_search st1 query top_k of
                Inl e \<Rightarrow> (Inl e, st1)
              | Inr keyword_results \<Rightarrow>
                  (case context_search st1 query top_k of
                     Inl e \<Rightarrow> (Inl e, st1)
                   | Inr context_results \<Rightarrow>
                       (Inr (fuse (semantic_results @ keyword_results @ context_results)
                               top_k min_similarity), st1)))))"

subsection \<open>Notions used to state the properties\<close>

abbreviation doc_name :: "SearchResult \<Rightarrow> string" where
  "doc_name r \<equiv> api_name (api_doc r)"

text \<open>The test \<^verbatim>\<open>result.similarity_score >= min_similarity\<close>.\<close>

definition passes :: "real \<Rightarrow> SearchResult \<Rightarrow> bool" where
  "passes m r = float_ge (similarity_score r) (Num m)"

text \<open>Descending by score: each result's score is \<^verbatim>\<open>>=\<close> that of every later one.\<close>

definition descending :: "SearchResult list \<Rightarrow> bool" where
  "descending rs = sorted_wrt (\<lambda>a b. float_ge (similarity_score a) (similarity_score b)) rs"

text \<open>
  Deduplication by identifier that keeps the first entry seen for each identifier
  (\<open>seen\<close>: the identifiers already taken).
\<close>

fun first_by_name :: "string set \<Rightarrow> SearchResult list \<Rightarrow> SearchResult list" where
  "first_by_name seen [] = []"
| "first_by_name seen (r # rs) =
     (if doc_name r \<in> seen then first_by_name seen rs
      else r # first_by_name (insert (doc_name r) seen) rs)"

text \<open>
  Fusion in the order the specification gives: deduplicate the joined candidates first,
  filter by the threshold afterwards, then sort and truncate.
\<close>

definition fuse_spec :: "SearchResult list \<Rightarrow> int \<Rightarrow> real \<Rightarrow> SearchResult list" where
  "fuse_spec results top_k min_similarity =
     slice_to (sort_desc (filter (passes min_similarity) (first_by_name {} results))) top_k"

text \<open>A search result, written as the constructor call of the source.\<close>

definition res :: "APIDocEntry \<Rightarrow> pyfloat \<Rightarrow> string \<Rightarrow> SearchResult" where
  "res d s t = \<lparr>api_doc = d, similarity_score = s, match_type = t\<rparr>"

text \<open>
  The expression of the source for the score of an embedding \<open>e\<close> against the query
  vector \<open>q\<close>, \<^verbatim>\<open>np.dot(q, e) / (np.linalg.norm(q) * np.linalg.norm(e))\<close>, for a dot
  product that did not raise.
\<close>

definition similarity :: "runtime \<Rightarrow> vec \<Rightarrow> vec \<Rightarrow> pyfloat" where
  "similarity rt q e =
     np_div rt (the (np_dot rt q e)) (np_mul rt (np_norm rt q) (np_norm rt e))"

text \<open>A vector all of whose components are zero.\<close>

definition all_zero :: "vec \<Rightarrow> bool" where
  "all_zero v = list_all (\<lambda>x. x = 0) v"

subsection \<open>The float operations on exact values\<close>

text \<open>
  The product and the quotient of IEEE floats where no rounding occurs (signed zeros
  apart): a zero divisor gives NaN for a zero dividend and an infinity otherwise.
\<close>

fun float_mul :: "pyfloat \<Rightarrow> pyfloat \<Rightarrow> pyfloat" where
  "float_mul (Num a) (Num b) = Num (a * b)"
| "float_mul (Num a) PosInf = (if a = 0 then NaN else if 0 < a then PosInf else NegInf)"
| "float_mul (Num a) NegInf = (if a = 0 then NaN else if 0 < a then NegInf else PosInf)"
| "float_mul PosInf (Num b) = (if b = 0 then NaN else if 0 < b then PosInf else NegInf)"
| "float_mul NegInf (Num b) = (if b = 0 then NaN else if 0 < b then NegInf else PosInf)"
| "float_mul PosInf PosInf = PosInf"
| "float_mul PosInf NegInf = NegInf"
| "float_mul NegInf PosInf = NegInf"
| "float_mul NegInf NegInf = PosInf"
| "float_mul _ _ = NaN"

fun float_div :: "pyfloat \<Rightarrow> pyfloat \<Rightarrow> pyfloat" where
  "float_div (Num a) (Num b) =
     (if b = 0 then (if a = 0 then NaN else if 0 < a then PosInf else NegInf)
      else Num (a / b))"
| "float_div (Num a) PosInf = Num 0"
| "float_div (Num a) NegInf = Num 0"
| "float_div PosInf (Num b) = (if 0 \<le> b then PosInf else NegInf)"
| "float_div NegInf (Num b) = (if 0 \<le> b then NegInf else PosInf)"
| "float_div _ _ = NaN"

text \<open>
  A runtime that computes without rounding. It is the interpreter's on the vectors of
  the corpus below, whose components are 0 and 1. Its \<open>sort_nan\<close> is never reached
  there: no list of two or more results with a NaN key is sorted.
\<close>

definition exact_runtime :: runtime where
  "exact_runtime =
     \<lparr>np_dot = (\<lambda>a b. if length a = length b
                        then Some (Num (\<Sum>(x, y) \<leftarrow> zip a b. x * y)) else None),
      np_norm = (\<lambda>a. Num (sqrt (\<Sum>x \<leftarrow> a. x * x))),
      np_mul = float_mul,
      np_div = float_div,
      sort_nan = (\<lambda>xs. xs)\<rparr>"

subsection \<open>A small corpus\<close>

definition doc_run :: APIDocEntry where
  "doc_run = \<lparr>api_name = ''run'', library = ''q'', signature = ''run()'',
     description = ''Run it'', parameters = [], returns = [], example = [],
     usage_context = ''to run jobs'', related_apis = [''sim'', ''nope''],
     common_pitfalls = [], embedding = Some [0, 1]\<rparr>"

definition doc_sim :: APIDocEntry where
  "doc_sim = \<lparr>api_name = ''sim'', library = ''q'', signature = ''sim()'',
     description = ''run sim'', parameters = [], returns = [], example = [],
     usage_context = ''for tests'', related_apis = [],
     common_pitfalls = [], embedding = Some [1, 0]\<rparr>"

definition doc_job :: APIDocEntry where
  "doc_job = \<lparr>api_name = ''job'', library = ''q'', signature = ''job()'',
     description = ''run job'', parameters = [], returns = [], example = [],
     usage_context = ''batch'', related_apis = [],
     common_pitfalls = [], embedding = Some [0, 0]\<rparr>"

definition empty_cache :: EmbeddingCache where
  "empty_cache = \<lparr>cache = [], cache_file = None\<rparr>"

text \<open>A manager after \<^verbatim>\<open>load_knowledge_base\<close> without a model, on two and on three documents.\<close>

definition kb :: RAGManager where
  "kb = \<lparr>api_docs = [doc_run, doc_sim], embedding_model = None,
          embedding_cache = empty_cache\<rparr>"

definition kb3 :: RAGManager where
  "kb3 = \<lparr>api_docs = [doc_run, doc_sim, doc_job], embedding_model = None,
           embedding_cache = empty_cache\<rparr>"

text \<open>An embedding model that maps every text to the same unit vector.\<close>

definition encoder :: model where
  "encoder = (\<lambda>text. Some [1, 0])"



section \<open>Properties\<close>

subsection \<open>Sorting, slicing and the deduplication loop\<close>

lemma unique_loop_eq:
  "unique_loop m rs seen acc = acc @ first_by_name seen (filter (passes m) rs)"
  by (induction rs arbitrary: seen acc) (simp_all add: passes_def)

lemma first_by_name_subset: "set (first_by_name seen rs) \<subseteq> {r \<in> set rs. doc_name r \<notin> seen}"
  by (induction rs arbitrary: seen) auto

lemma first_by_name_distinct: "distinct (map doc_name (first_by_name seen rs))"
proof (induction rs arbitrary: seen)
  case Nil
  show ?case by simp
next
  case (Cons r rs)
  have "doc_name r \<notin> doc_name ` set (first_by_name (insert (doc_name r) seen) rs)"
    using first_by_name_subset [of "insert (doc_name r) seen" rs] by auto
  with Cons show ?case by simp
qed

lemma first_by_name_append:
  "first_by_name seen (xs @ ys) =
     first_by_name seen xs @ first_by_name (seen \<union> doc_name ` set xs) ys"
  by (induction xs arbitrary: seen) (simp_all add: insert_absorb)

lemma first_by_name_nonempty: "first_by_name {} rs \<noteq> [] \<longleftrightarrow> rs \<noteq> []"
  by (cases rs) simp_all

lemma set_insort_desc: "set (insort_desc x ys) = insert x (set ys)"
  by (induction ys) auto

lemma length_insort_desc: "length (insort_desc x ys) = Suc (length ys)"
  by (induction ys) auto

lemma set_sort_desc: "set (sort_desc xs) = set xs"
  by (induction xs) (simp_all add: sort_desc_def set_insort_desc)

lemma length_sort_desc: "length (sort_desc xs) = length xs"
  by (induction xs) (simp_all add: sort_desc_def length_insort_desc)

lemma distinct_insort_desc:
  "distinct (map f (insort_desc x ys)) \<longleftrightarrow> f x \<notin> f ` set ys \<and> distinct (map f ys)"
  by (induction ys) (auto simp: set_insort_desc)

lemma distinct_sort_desc: "distinct (map f (sort_desc xs)) \<longleftrightarrow> distinct (map f xs)"
  by (induction xs)
    (simp_all add: sort_desc_def distinct_insort_desc set_sort_desc [unfolded sort_desc_def])

lemma float_ge_trans: "float_ge a b \<Longrightarrow> float_ge b c \<Longrightarrow> float_ge a c"
  by (cases a; cases b; cases c) simp_all

lemma not_float_lt_ge:
  "float_ge a (Num m) \<Longrightarrow> float_ge b (Num m') \<Longrightarrow> \<not> float_lt a b \<Longrightarrow> float_ge a b"
  by (cases a; cases b) simp_all

lemma float_lt_ge: "float_lt a b \<Longrightarrow> float_ge b a"
  by (cases a; cases b) simp_all

lemma descending_insort_desc:
  assumes "passes m x" "\<forall>y \<in> set ys. passes m y" "descending ys"
  shows "descending (insort_desc x ys)"
  using assms
proof (induction ys)
  case Nil
  then show ?case by (simp add: descending_def)
next
  case (Cons y ys)
  show ?case
  proof (cases "float_lt (similarity_score x) (similarity_score y)")
    case True
    have "descending (insort_desc x ys)"
      using Cons by (simp add: descending_def)
    moreover have "float_ge (similarity_score y) (similarity_score x)"
      using True by (rule float_lt_ge)
    ultimately show ?thesis
      using True Cons.prems(3) by (auto simp: descending_def set_insort_desc)
  next
    case False
    have xy: "float_ge (similarity_score x) (similarity_score y)"
      using Cons.prems(1,2) False by (auto simp: passes_def intro: not_float_lt_ge)
    have "\<forall>z \<in> set ys. float_ge (similarity_score x) (similarity_score z)"
      using float_ge_trans [OF xy] Cons.prems(3) by (auto simp: descending_def)
    then show ?thesis
      using False xy Cons.prems(3) by (simp add: descending_def)
  qed
qed

lemma descending_sort_desc: "\<forall>y \<in> set xs. passes m y \<Longrightarrow> descending (sort_desc xs)"
proof (induction xs)
  case Nil
  show ?case by (simp add: sort_desc_def descending_def)
next
  case (Cons x xs)
  then have "descending (insort_desc x (sort_desc xs))"
    by (intro descending_insort_desc [where m = m]) (simp_all add: set_sort_desc)
  then show ?case by (simp add: sort_desc_def)
qed

lemma length_slice_to: "0 \<le> k \<Longrightarrow> length (slice_to xs k) \<le> nat k"
  by (simp add: slice_to_def)

lemma set_slice_to: "set (slice_to xs k) \<subseteq> set xs"
  by (auto simp: slice_to_def dest: in_set_takeD)

lemma distinct_slice_to: "distinct (map f xs) \<Longrightarrow> distinct (map f (slice_to xs k))"
  by (simp add: slice_to_def take_map [symmetric] del: take_map)

lemma descending_slice_to: "descending xs \<Longrightarrow> descending (slice_to xs k)"
  by (simp add: slice_to_def descending_def sorted_wrt_take)

lemma fuse_eq:
  "fuse rs k m = slice_to (sort_desc (first_by_name {} (filter (passes m) rs))) k"
  by (simp add: fuse_def unique_loop_eq)

lemma fuse_contract:
  "(0 \<le> k \<longrightarrow> length (fuse rs k m) \<le> nat k) \<and> descending (fuse rs k m)
   \<and> (\<forall>r \<in> set (fuse rs k m). passes m r \<and> r \<in> set rs)
   \<and> distinct (map doc_name (fuse rs k m))"
proof -
  let ?u = "first_by_name {} (filter (passes m) rs)"
  have u: "\<forall>r \<in> set ?u. passes m r \<and> r \<in> set rs"
    using first_by_name_subset [of "{}" "filter (passes m) rs"] by auto
  have "descending (sort_desc ?u)"
    by (rule descending_sort_desc [where m = m]) (use u in blast)
  then have d: "descending (fuse rs k m)"
    unfolding fuse_eq by (rule descending_slice_to)
  have s: "\<forall>r \<in> set (fuse rs k m). passes m r \<and> r \<in> set rs"
  proof
    fix r
    assume "r \<in> set (fuse rs k m)"
    then have "r \<in> set (sort_desc ?u)"
      using set_slice_to [of "sort_desc ?u" k] unfolding fuse_eq by blast
    then have "r \<in> set ?u"
      by (simp only: set_sort_desc)
    with u show "passes m r \<and> r \<in> set rs"
      by blast
  qed
  have "distinct (map doc_name (sort_desc ?u))"
    by (simp add: distinct_sort_desc first_by_name_distinct)
  then have n: "distinct (map doc_name (fuse rs k m))"
    unfolding fuse_eq by (rule distinct_slice_to)
  have l: "0 \<le> k \<longrightarrow> length (fuse rs k m) \<le> nat k"
    by (simp add: fuse_eq length_slice_to)
  show ?thesis
    using l d s n by blast
qed

subsection \<open>Related documents\<close>

lemma related_loop_eq:
  "related_loop docs names related = related @ List.map_filter (get_api_by_name docs) names"
  by (induction names arbitrary: related) (simp_all add: List.map_filter_simps split: option.splits)

text \<open>
  C9. \<^verbatim>\<open>get_related_apis\<close> resolves each related identifier of the document by exact
  lookup and returns the documents found, in the order of the list, leaving out the
  identifiers that do not resolve. An identifier that is not in the corpus gives the
  empty list; a related list of one valid and one unknown identifier gives exactly the
  one document.
\<close>

theorem get_related_apis_resolves:
  "get_related_apis st x =
     (case get_api_by_name (api_docs st) x of
        None \<Rightarrow> []
      | Some d \<Rightarrow> List.map_filter (get_api_by_name (api_docs st)) (related_apis d))
   \<and> (get_api_by_name (api_docs st) x = None \<longrightarrow> get_related_apis st x = [])
   \<and> (get_api_by_name (api_docs st) x = Some d
        \<and> get_api_by_name (api_docs st) a = Some da
        \<and> get_api_by_name (api_docs st) b = None
        \<and> (related_apis d = [a, b] \<or> related_apis d = [b, a])
        \<longrightarrow> get_related_apis st x = [da])"
  by (auto simp: get_related_apis_def related_loop_eq List.map_filter_simps
      split: option.splits)

theorem get_related_apis_resolves_witness:
  "get_api_by_name (api_docs kb) ''run'' = Some doc_run
   \<and> get_api_by_name (api_docs kb) ''sim'' = Some doc_sim
   \<and> get_api_by_name (api_docs kb) ''nope'' = None
   \<and> related_apis doc_run = [''sim'', ''nope'']
   \<and> get_related_apis kb ''run'' = [doc_sim]"
proof -
  have 1: "get_api_by_name (api_docs kb) ''run'' = Some doc_run"
    by (simp add: kb_def doc_run_def)
  have 2: "get_api_by_name (api_docs kb) ''sim'' = Some doc_sim"
    by (simp add: kb_def doc_run_def doc_sim_def)
  have 3: "get_api_by_name (api_docs kb) ''nope'' = None"
    by (simp add: kb_def doc_run_def doc_sim_def)
  have 4: "related_apis doc_run = [''sim'', ''nope'']"
    by (simp add: doc_run_def)
  from get_related_apis_resolves [of kb "''run''" doc_run "''sim''" doc_sim "''nope''"] 1 2 3 4
  have "get_related_apis kb ''run'' = [doc_sim]"
    by blast
  with 1 2 3 4 show ?thesis
    by blast
qed

subsection \<open>The embedding cache\<close>

lemma cache_of_cache_set:
  "cache (cache_set h out c t v) = AList.update (h t) v (cache c)"
  by (simp add: cache_set_def save_cache_def get_cache_key_def Let_def)

text \<open>
  C7. After \<^verbatim>\<open>set(t, v)\<close> a \<^verbatim>\<open>get(t)\<close> returns \<open>v\<close>. The cache is addressed by
  content: the key is the digest of the text and of nothing else, so a \<^verbatim>\<open>get\<close> of
  any text with the digest of \<open>t\<close> returns \<open>v\<close>, and a \<^verbatim>\<open>get\<close> of a text with
  another digest returns what it returned before.
\<close>

theorem cache_round_trip:
  "cache_get h (cache_set h out c t v) t = Some v
   \<and> get_cache_key h t = h t
   \<and> cache_get h (cache_set h out c t v) t' =
       (if h t' = h t then Some v else cache_get h c t')"
  by (simp add: cache_get_def cache_of_cache_set get_cache_key_def update_conv')

subsection \<open>Frame of a search\<close>

lemma semantic_search_frame:
  "api_docs (snd (semantic_search rt loader st q k)) = api_docs st
   \<and> embedding_cache (snd (semantic_search rt loader st q k)) = embedding_cache st"
  by (simp add: semantic_search_def init_embedding_model_def Let_def split: option.splits)

text \<open>
  C10. A search leaves the document store and the embedding cache as they were: the
  list of documents with all their fields (the embeddings among them) and the cache
  (dictionary and file) are the same after \<^verbatim>\<open>search_apis\<close> and after
  \<^verbatim>\<open>_semantic_search\<close>, whether the call returns or raises. The keyword and the context
  strategy assign to no attribute; the only attribute a search assigns to is the
  lazily loaded model.
\<close>

theorem search_apis_frame:
  "api_docs (snd (search_apis rt loader st q k m)) = api_docs st
   \<and> embedding_cache (snd (search_apis rt loader st q k m)) = embedding_cache st
   \<and> api_docs (snd (semantic_search rt loader st q k')) = api_docs st
   \<and> embedding_cache (snd (semantic_search rt loader st q k')) = embedding_cache st"
proof -
  obtain sem st1 where s: "semantic_search rt loader st q (k * 2) = (sem, st1)"
    by (cases "semantic_search rt loader st q (k * 2)")
  have f: "api_docs st1 = api_docs st \<and> embedding_cache st1 = embedding_cache st"
    using semantic_search_frame [of rt loader st q "k * 2"] s by simp
  have "snd (search_apis rt loader st q k m) = st \<or> snd (search_apis rt loader st q k m) = st1"
    by (simp add: search_apis_def s split: sum.splits)
  with f semantic_search_frame [of rt loader st q k'] show ?thesis
    by auto
qed

subsection \<open>Queries without tokens\<close>

lemma str_in_Nil: "str_in [] s"
  by (induction s) simp_all

lemma sort_desc_Nil: "sort_desc [] = []"
  by (simp add: sort_desc_def)

lemma slice_to_Nil: "slice_to [] k = []"
  by (simp add: slice_to_def)

lemma count_matches_pos: "0 < count_matches ws t n \<Longrightarrow> ws \<noteq> []"
  by (cases ws) simp_all

lemma keyword_loop_returns: "\<exists>rs. keyword_loop ws docs = Inr rs"
proof (induction docs)
  case Nil
  show ?case by simp
next
  case (Cons d docs)
  then obtain rs where rs: "keyword_loop ws docs = Inr rs"
    by blast
  show ?case
  proof (cases "0 < count_matches ws
      (lower (api_name d @ '' '' @ description d @ '' '' @ signature d)) (lower (api_name d))")
    case True
    then have "length ws \<noteq> 0"
      using count_matches_pos by fastforce
    with True rs show ?thesis
      by (simp add: py_truediv_def Let_def)
  next
    case False
    with rs show ?thesis
      by (simp add: Let_def)
  qed
qed

lemma keyword_search_returns: "\<exists>rs. keyword_search st q k = Inr rs"
proof -
  obtain rs where "keyword_loop (remdups (split (lower q))) (api_docs st) = Inr rs"
    using keyword_loop_returns by blast
  then show ?thesis
    by (simp add: keyword_search_def)
qed

lemma keyword_loop_no_words: "keyword_loop [] docs = Inr []"
  by (induction docs) (simp_all add: Let_def)

lemma keyword_search_no_tokens: "split (lower q) = [] \<Longrightarrow> keyword_search st q k = Inr []"
  by (simp add: keyword_search_def keyword_loop_no_words sort_desc_Nil slice_to_Nil)

lemma context_loop_returns: "split ql \<noteq> [] \<Longrightarrow> \<exists>rs. context_loop ql docs = Inr rs"
proof (induction docs)
  case Nil
  show ?case by simp
next
  case (Cons d docs)
  then obtain rs where rs: "context_loop ql docs = Inr rs"
    by blast
  have "length (split ql) \<noteq> 0"
    using Cons.prems by simp
  with rs show ?case
    by (simp add: py_truediv_def Let_def)
qed

lemma context_search_returns:
  "split (lower q) \<noteq> [] \<Longrightarrow> \<exists>rs. context_search st q k = Inr rs"
proof -
  assume "split (lower q) \<noteq> []"
  then obtain rs where "context_loop (lower q) (api_docs st) = Inr rs"
    using context_loop_returns by blast
  then show ?thesis
    by (simp add: context_search_def)
qed

lemma context_loop_no_tokens:
  "split ql = [] \<Longrightarrow>
   context_loop ql docs =
     (if list_ex (\<lambda>d. str_in ql (lower (usage_context d))) docs
      then Inl ZeroDivisionError else Inr [])"
  by (induction docs) (simp_all add: py_truediv_def Let_def)

lemma context_search_no_tokens:
  "split (lower q) = [] \<Longrightarrow>
   context_search st q k =
     (if list_ex (\<lambda>d. str_in (lower q) (lower (usage_context d))) (api_docs st)
      then Inl ZeroDivisionError else Inr [])"
  by (simp add: context_search_def context_loop_no_tokens sort_desc_Nil slice_to_Nil)

lemma semantic_search_docs:
  "api_docs (snd (semantic_search rt loader st q k)) = api_docs st"
  by (simp add: semantic_search_def init_embedding_model_def Let_def split: option.splits)

lemma search_apis_cases:
  assumes "api_docs st \<noteq> []"
  shows "fst (search_apis rt loader st q k m) =
     (case keyword_search (snd (semantic_search rt loader st q (k * 2))) q k of
        Inl e \<Rightarrow> Inl e
      | Inr kw \<Rightarrow>
          (case context_search (snd (semantic_search rt loader st q (k * 2))) q k of
             Inl e \<Rightarrow> Inl e
           | Inr cx \<Rightarrow>
               Inr (fuse (fst (semantic_search rt loader st q (k * 2)) @ kw @ cx) k m)))"
  using assms
  by (simp add: search_apis_def split: prod.splits sum.splits)

lemma search_apis_no_tokens:
  assumes "split (lower q) = []"
    and "list_ex (\<lambda>d. str_in (lower q) (lower (usage_context d))) (api_docs st)"
  shows "fst (search_apis rt loader st q k m) = Inl ZeroDivisionError"
proof -
  have ne: "api_docs st \<noteq> []"
    using assms(2) by auto
  let ?st1 = "snd (semantic_search rt loader st q (k * 2))"
  have d: "api_docs ?st1 = api_docs st"
    by (rule semantic_search_docs)
  have kw: "keyword_search ?st1 q k = Inr []"
    using assms(1) by (rule keyword_search_no_tokens)
  have cx: "context_search ?st1 q k = Inl ZeroDivisionError"
    using assms by (simp add: context_search_no_tokens d)
  show ?thesis
    by (simp add: search_apis_cases [OF ne] kw cx)
qed

lemma search_apis_returns:
  assumes "split (lower q) \<noteq> []"
  shows "\<exists>rs. fst (search_apis rt loader st q k m) = Inr rs"
proof (cases "api_docs st = []")
  case True
  then show ?thesis
    by (simp add: search_apis_def)
next
  case False
  let ?st1 = "snd (semantic_search rt loader st q (k * 2))"
  obtain kw where kw: "keyword_search ?st1 q k = Inr kw"
    using keyword_search_returns by blast
  obtain cx where cx: "context_search ?st1 q k = Inr cx"
    using context_search_returns [OF assms] by blast
  show ?thesis
    by (simp add: search_apis_cases [OF False] kw cx)
qed

lemma search_apis_fused:
  assumes "fst (search_apis rt loader st q k m) = Inr rs"
  shows "\<exists>cands. rs = fuse cands k m"
proof (cases "api_docs st = []")
  case True
  with assms have "rs = []"
    by (simp add: search_apis_def)
  then have "rs = fuse [] k m"
    by (simp add: fuse_def sort_desc_Nil slice_to_Nil)
  then show ?thesis
    by blast
next
  case False
  show ?thesis
    using assms unfolding search_apis_cases [OF False]
    by (auto split: sum.splits)
qed

lemma search_apis_contract:
  assumes "fst (search_apis rt loader st q k m) = Inr rs"
  shows "(0 \<le> k \<longrightarrow> length rs \<le> nat k) \<and> descending rs
     \<and> (\<forall>r \<in> set rs. passes m r) \<and> distinct (map doc_name rs)"
proof -
  obtain cands where "rs = fuse cands k m"
    using search_apis_fused [OF assms] by blast
  then show ?thesis
    using fuse_contract [of k cands m] by blast
qed

lemmas eval_defs =
  kb_def kb3_def doc_run_def doc_sim_def doc_job_def empty_cache_def encoder_def
  split_def lower_def lower_char_def is_space_def py_truediv_def
  slice_to_def sort_desc_def fuse_def
  keyword_search_def context_search_def semantic_search_def init_embedding_model_def
  exact_runtime_def list_sort_def

text \<open>
  C3. A query without tokens (the empty string, or white space only): the keyword
  strategy returns no candidate, its division being guarded by the test on the number
  of matches. The context strategy returns no candidate only when the lowercased query
  occurs in no usage context; when it occurs in one (the empty string occurs in every
  text) the strategy divides by the number of tokens, which is zero, and
  \<^verbatim>\<open>ZeroDivisionError\<close> leaves \<^verbatim>\<open>_context_search\<close> and \<^verbatim>\<open>search_apis\<close>. On a corpus that
  is not empty the empty query always raises.
\<close>

theorem context_search_no_tokens_raises:
  assumes "split (lower q) = []"
  shows "keyword_search st q k = Inr []
     \<and> context_search st q k =
         (if list_ex (\<lambda>d. str_in (lower q) (lower (usage_context d))) (api_docs st)
          then Inl ZeroDivisionError else Inr [])
     \<and> (list_ex (\<lambda>d. str_in (lower q) (lower (usage_context d))) (api_docs st)
          \<longrightarrow> fst (search_apis rt loader st q k m) = Inl ZeroDivisionError)
     \<and> (q = [] \<and> api_docs st \<noteq> []
          \<longrightarrow> fst (search_apis rt loader st q k m) = Inl ZeroDivisionError)"
proof -
  have "list_ex (\<lambda>d. str_in (lower q) (lower (usage_context d))) (api_docs st)"
    if "q = []" "api_docs st \<noteq> []"
    using that by (cases "api_docs st") (simp_all add: lower_def str_in_Nil)
  then show ?thesis
    using assms keyword_search_no_tokens context_search_no_tokens search_apis_no_tokens
    by metis
qed

theorem context_search_no_tokens_raises_witness:
  "split (lower []) = [] \<and> api_docs kb \<noteq> []
   \<and> keyword_search kb [] 5 = Inr []
   \<and> context_search kb [] 5 = Inl ZeroDivisionError
   \<and> fst (search_apis exact_runtime None kb [] 5 (3 / 10)) = Inl ZeroDivisionError"
proof -
  have 1: "split (lower []) = []"
    by (simp add: split_def lower_def)
  have 2: "api_docs kb \<noteq> []"
    by (simp add: kb_def)
  have 3: "list_ex (\<lambda>d. str_in (lower []) (lower (usage_context d))) (api_docs kb)"
    by (simp add: kb_def lower_def str_in_Nil)
  from context_search_no_tokens_raises [OF 1, where st = kb and k = 5 and rt = exact_runtime and loader = None and m = "3 / 10"] 2 3
  show ?thesis
    using 1 by simp
qed

text \<open>
  C1. \<^verbatim>\<open>search_apis\<close> does not return a sequence for every query: on the corpus \<open>kb\<close>
  the query of one space raises \<^verbatim>\<open>ZeroDivisionError\<close>, whatever the model, \<^verbatim>\<open>top_k\<close> and
  \<^verbatim>\<open>min_similarity\<close> are. (Whenever a sequence is returned it has the properties of the
  contract, and one is returned for every query that has a token: lemmas
  \<open>search_apis_contract\<close> and \<open>search_apis_returns\<close>.)
\<close>

theorem search_apis_blank_query_raises:
  "fst (search_apis rt loader kb '' '' k m) = Inl ZeroDivisionError"
proof -
  have 1: "split (lower '' '') = []"
    by (simp add: split_def lower_def lower_char_def is_space_def)
  have 2: "list_ex (\<lambda>d. str_in (lower '' '') (lower (usage_context d))) (api_docs kb)"
    by (simp add: kb_def doc_run_def lower_def lower_char_def)
  show ?thesis
    using 1 2 by (rule search_apis_no_tokens)
qed

subsection \<open>Fusion and degraded search\<close>

lemma fuse_nonempty:
  assumes "1 \<le> k"
  shows "fuse rs k m \<noteq> [] \<longleftrightarrow> (\<exists>r \<in> set rs. passes m r)"
proof -
  let ?u = "first_by_name {} (filter (passes m) rs)"
  have "fuse rs k m = take (nat k) (sort_desc ?u)"
    using assms by (simp add: fuse_eq slice_to_def)
  moreover have "0 < nat k"
    using assms by simp
  ultimately have "fuse rs k m \<noteq> [] \<longleftrightarrow> sort_desc ?u \<noteq> []"
    by (cases "sort_desc ?u") (auto simp: take_Cons')
  also have "\<dots> \<longleftrightarrow> ?u \<noteq> []"
    using length_sort_desc [of ?u] by (metis length_0_conv)
  also have "\<dots> \<longleftrightarrow> filter (passes m) rs \<noteq> []"
    by (rule first_by_name_nonempty)
  also have "\<dots> \<longleftrightarrow> (\<exists>r \<in> set rs. passes m r)"
    by (simp add: filter_empty_conv)
  finally show ?thesis .
qed

lemma semantic_search_unavailable:
  "embedding_model st = None \<Longrightarrow> semantic_search rt None st q k = ([], st)"
  by (simp add: semantic_search_def init_embedding_model_def)

lemma fuse_semantic_first:
  assumes r: "r \<in> set (fuse (sem @ rest) k m)"
    and s: "s \<in> set sem" "doc_name s = doc_name r" "passes m s"
  shows "r \<in> set sem"
proof -
  let ?a = "filter (passes m) sem"
  let ?b = "filter (passes m) rest"
  have "r \<in> set (sort_desc (first_by_name {} (?a @ ?b)))"
    using r set_slice_to [of "sort_desc (first_by_name {} (?a @ ?b))" k]
    unfolding fuse_eq filter_append by blast
  then have "r \<in> set (first_by_name {} (?a @ ?b))"
    by (simp only: set_sort_desc)
  then have "r \<in> set (first_by_name {} ?a)
      \<or> r \<in> set (first_by_name ({} \<union> doc_name ` set ?a) ?b)"
    by (simp only: first_by_name_append set_append Un_iff)
  then show ?thesis
  proof
    assume "r \<in> set (first_by_name {} ?a)"
    then have "r \<in> set ?a"
      using first_by_name_subset [of "{}" ?a] by blast
    then show ?thesis
      by simp
  next
    assume "r \<in> set (first_by_name ({} \<union> doc_name ` set ?a) ?b)"
    then have "doc_name r \<notin> doc_name ` set ?a"
      using first_by_name_subset [of "{} \<union> doc_name ` set ?a" ?b] by blast
    moreover have "s \<in> set ?a"
      using s by simp
    ultimately show ?thesis
      using s(2) by (metis imageI)
  qed
qed

lemma same_name_same_result:
  "distinct (map doc_name xs) \<Longrightarrow> r \<in> set xs \<Longrightarrow> s \<in> set xs \<Longrightarrow>
   doc_name s = doc_name r \<Longrightarrow> r = s"
  by (metis distinct_map inj_on_def)


text \<open>
  C2 (as the code has it). The loop of \<^verbatim>\<open>search_apis\<close> tests the threshold and the
  identifier together: an entry below \<^verbatim>\<open>min_similarity\<close> does not mark its identifier
  as seen. Fusion is therefore: filter the joined candidates by the threshold, keep the
  first entry of each identifier among those that pass, sort, truncate. A reported
  document that has a semantic candidate at or above the threshold is reported by a
  semantic candidate, and by that very candidate when the semantic identifiers are
  distinct.
\<close>

theorem fuse_threshold_then_first_seen:
  "fuse (sem @ kw @ cx) k m =
     slice_to (sort_desc (first_by_name {} (filter (passes m) (sem @ kw @ cx)))) k
   \<and> (r \<in> set (fuse (sem @ kw @ cx) k m) \<and> s \<in> set sem
        \<and> doc_name s = doc_name r \<and> passes m s
        \<longrightarrow> r \<in> set sem \<and> (distinct (map doc_name sem) \<longrightarrow> r = s))"
proof -
  have "r \<in> set sem \<and> (distinct (map doc_name sem) \<longrightarrow> r = s)"
    if "r \<in> set (fuse (sem @ kw @ cx) k m)" "s \<in> set sem"
      "doc_name s = doc_name r" "passes m s"
  proof -
    have "r \<in> set sem"
      using that by (rule fuse_semantic_first)
    then show ?thesis
      using that(2,3) same_name_same_result by blast
  qed
  then show ?thesis
    using fuse_eq by blast
qed

theorem fuse_threshold_then_first_seen_witness:
  "res doc_sim (Num 1) ''semantic''
     \<in> set (fuse ([res doc_sim (Num 1) ''semantic'', res doc_run (Num 0) ''semantic'']
                  @ [res doc_run (Num 2) ''keyword'', res doc_sim (Num 1) ''keyword'']
                  @ [res doc_run (Num 1) ''context'']) 5 (3 / 10))
   \<and> passes (3 / 10) (res doc_sim (Num 1) ''semantic'')
   \<and> distinct (map doc_name [res doc_sim (Num 1) ''semantic'', res doc_run (Num 0) ''semantic''])
   \<and> fuse ([res doc_sim (Num 1) ''semantic'', res doc_run (Num 0) ''semantic'']
            @ [res doc_run (Num 2) ''keyword'', res doc_sim (Num 1) ''keyword'']
            @ [res doc_run (Num 1) ''context'']) 5 (3 / 10) =
       slice_to (sort_desc (first_by_name {} (filter (passes (3 / 10))
         ([res doc_sim (Num 1) ''semantic'', res doc_run (Num 0) ''semantic'']
          @ [res doc_run (Num 2) ''keyword'', res doc_sim (Num 1) ''keyword'']
          @ [res doc_run (Num 1) ''context''])))) 5"
proof -
  let ?sem = "[res doc_sim (Num 1) ''semantic'', res doc_run (Num 0) ''semantic'']"
  let ?kw = "[res doc_run (Num 2) ''keyword'', res doc_sim (Num 1) ''keyword'']"
  let ?cx = "[res doc_run (Num 1) ''context'']"
  let ?r = "res doc_sim (Num 1) ''semantic''"
  have 1: "?r \<in> set (fuse (?sem @ ?kw @ ?cx) 5 (3 / 10))"
    by (simp add: fuse_def sort_desc_def slice_to_def res_def doc_run_def doc_sim_def)
  have 2: "passes (3 / 10) ?r"
    by (simp add: passes_def res_def)
  have 3: "distinct (map doc_name ?sem)"
    by (simp add: res_def doc_run_def doc_sim_def)
  from fuse_threshold_then_first_seen [of ?sem ?kw ?cx 5 "3 / 10" ?r ?r] 1 2 3
  show ?thesis
    by blast
qed

theorem fuse_keeps_keyword_score_counterexample:
  "fst (semantic_search exact_runtime (Some encoder) kb ''run'' (5 * 2)) =
     [res doc_sim (Num 1) ''semantic'', res doc_run (Num 0) ''semantic'']
   \<and> keyword_search kb ''run'' 5 =
       Inr [res doc_run (Num 2) ''keyword'', res doc_sim (Num 1) ''keyword'']
   \<and> context_search kb ''run'' 5 = Inr [res doc_run (Num 1) ''context'']
   \<and> fst (search_apis exact_runtime (Some encoder) kb ''run'' 5 (3 / 10)) =
       Inr [res doc_run (Num 2) ''keyword'', res doc_sim (Num 1) ''semantic'']
   \<and> fuse_spec ([res doc_sim (Num 1) ''semantic'', res doc_run (Num 0) ''semantic'']
                 @ [res doc_run (Num 2) ''keyword'', res doc_sim (Num 1) ''keyword'']
                 @ [res doc_run (Num 1) ''context'']) 5 (3 / 10) =
       [res doc_sim (Num 1) ''semantic'']"
proof -
  have 1: "fst (semantic_search exact_runtime (Some encoder) kb ''run'' (5 * 2)) =
     [res doc_sim (Num 1) ''semantic'', res doc_run (Num 0) ''semantic'']"
    by (simp add: eval_defs res_def)
  have 2: "keyword_search kb ''run'' 5 =
       Inr [res doc_run (Num 2) ''keyword'', res doc_sim (Num 1) ''keyword'']"
    by (simp add: eval_defs res_def)
  have 3: "context_search kb ''run'' 5 = Inr [res doc_run (Num 1) ''context'']"
    by (simp add: eval_defs res_def)
  have 4: "fst (search_apis exact_runtime (Some encoder) kb ''run'' 5 (3 / 10)) =
       Inr [res doc_run (Num 2) ''keyword'', res doc_sim (Num 1) ''semantic'']"
    by (simp add: search_apis_def eval_defs res_def)
  have 5: "fuse_spec ([res doc_sim (Num 1) ''semantic'', res doc_run (Num 0) ''semantic'']
                 @ [res doc_run (Num 2) ''keyword'', res doc_sim (Num 1) ''keyword'']
                 @ [res doc_run (Num 1) ''context'']) 5 (3 / 10) =
       [res doc_sim (Num 1) ''semantic'']"
    by (simp add: fuse_spec_def passes_def sort_desc_def slice_to_def res_def
        doc_run_def doc_sim_def)
  from 1 2 3 4 5 show ?thesis
    by blast
qed

text \<open>
  C5 (as the code has it). Without a model the semantic strategy returns no candidate.
  For a query with a token \<^verbatim>\<open>search_apis\<close> then returns the fusion of the keyword and
  the context candidates alone, and for \<^verbatim>\<open>top_k >= 1\<close> that list is non-empty exactly
  when some keyword or context candidate has a score of at least \<^verbatim>\<open>min_similarity\<close>.
\<close>

theorem search_apis_without_model:
  assumes "embedding_model st = None"
  shows "fst (semantic_search rt None st q k') = []
     \<and> (split (lower q) \<noteq> [] \<longrightarrow>
          (\<exists>kw cx. keyword_search st q k = Inr kw \<and> context_search st q k = Inr cx
             \<and> fst (search_apis rt None st q k m) = Inr (fuse (kw @ cx) k m)
             \<and> (1 \<le> k \<longrightarrow>
                  (fuse (kw @ cx) k m \<noteq> [] \<longleftrightarrow> (\<exists>r \<in> set (kw @ cx). passes m r)))))"
proof -
  have sem: "semantic_search rt None st q j = ([], st)" for j
    using assms by (rule semantic_search_unavailable)
  have "\<exists>kw cx. keyword_search st q k = Inr kw \<and> context_search st q k = Inr cx
      \<and> fst (search_apis rt None st q k m) = Inr (fuse (kw @ cx) k m)
      \<and> (1 \<le> k \<longrightarrow> (fuse (kw @ cx) k m \<noteq> [] \<longleftrightarrow> (\<exists>r \<in> set (kw @ cx). passes m r)))"
    if tok: "split (lower q) \<noteq> []"
  proof -
    obtain kw where kw: "keyword_search st q k = Inr kw"
      using keyword_search_returns by blast
    obtain cx where cx: "context_search st q k = Inr cx"
      using context_search_returns [OF tok] by blast
    have "fst (search_apis rt None st q k m) = Inr (fuse (kw @ cx) k m)"
    proof (cases "api_docs st = []")
      case True
      then have "kw = []" "cx = []"
        using kw cx
        by (simp_all add: keyword_search_def context_search_def sort_desc_Nil slice_to_Nil)
      then show ?thesis
        using True by (simp add: search_apis_def fuse_def sort_desc_Nil slice_to_Nil)
    next
      case False
      show ?thesis
        by (simp add: search_apis_cases [OF False] sem kw cx)
    qed
    then show ?thesis
      using kw cx fuse_nonempty [of k "kw @ cx" m] by blast
  qed
  then show ?thesis
    using sem [of k'] by simp
qed

theorem search_apis_without_model_witness:
  "embedding_model kb = None \<and> split (lower ''it'') \<noteq> [] \<and> (1::int) \<le> 5
   \<and> keyword_search kb ''it'' 5 = Inr [res doc_run (Num 1) ''keyword'']
   \<and> context_search kb ''it'' 5 = Inr []
   \<and> fst (search_apis exact_runtime None kb ''it'' 5 (3 / 10)) = Inr [res doc_run (Num 1) ''keyword'']"
proof -
  have 1: "embedding_model kb = None"
    by (simp add: kb_def)
  have 2: "split (lower ''it'') \<noteq> []"
    by (simp add: split_def lower_def lower_char_def is_space_def)
  have 3: "keyword_search kb ''it'' 5 = Inr [res doc_run (Num 1) ''keyword'']"
    by (simp add: eval_defs res_def)
  have 4: "context_search kb ''it'' 5 = Inr []"
    by (simp add: eval_defs res_def)
  have 5: "fuse ([res doc_run (Num 1) ''keyword''] @ []) 5 (3 / 10) =
      [res doc_run (Num 1) ''keyword'']"
    by (simp add: fuse_def sort_desc_def slice_to_def res_def doc_run_def)
  from search_apis_without_model [OF 1, where q = "''it''" and k' = 10 and k = 5 and m = "3 / 10" and rt = exact_runtime] 2 3 4
  have "fst (search_apis exact_runtime None kb ''it'' 5 (3 / 10)) =
      Inr (fuse ([res doc_run (Num 1) ''keyword''] @ []) 5 (3 / 10))"
    by auto
  with 1 2 3 4 5 show ?thesis
    by simp
qed

theorem search_apis_context_match_empty_counterexample:
  "embedding_model kb = None
   \<and> fst (semantic_search exact_runtime None kb ''job'' (5 * 2)) = []
   \<and> keyword_search kb ''job'' 5 = Inr []
   \<and> context_search kb ''job'' 5 = Inr [res doc_run (Num 0) ''context'']
   \<and> fst (search_apis exact_runtime None kb ''job'' 5 (3 / 10)) = Inr []"
proof -
  have 1: "embedding_model kb = None"
    by (simp add: kb_def)
  have 2: "fst (semantic_search exact_runtime None kb ''job'' (5 * 2)) = []"
    by (simp add: eval_defs)
  have 3: "keyword_search kb ''job'' 5 = Inr []"
    by (simp add: eval_defs res_def)
  have 4: "context_search kb ''job'' 5 = Inr [res doc_run (Num 0) ''context'']"
    by (simp add: eval_defs res_def)
  have 5: "fst (search_apis exact_runtime None kb ''job'' 5 (3 / 10)) = Inr []"
    by (simp add: search_apis_def eval_defs res_def)
  from 1 2 3 4 5 show ?thesis
    by blast
qed

subsection \<open>The sorts that meet no NaN\<close>

lemma keyword_loop_no_nan:
  "keyword_loop ws docs = Inr rs \<Longrightarrow> \<forall>r \<in> set rs. similarity_score r \<noteq> NaN"
proof (induction docs arbitrary: rs)
  case Nil
  then show ?case by simp
next
  case (Cons d docs)
  obtain rs' where rs': "keyword_loop ws docs = Inr rs'"
    using keyword_loop_returns by blast
  then have ih: "\<forall>r \<in> set rs'. similarity_score r \<noteq> NaN"
    using Cons.IH by blast
  have "set rs \<subseteq> insert (res d (Num (real (count_matches ws
      (lower (api_name d @ '' '' @ description d @ '' '' @ signature d)) (lower (api_name d)))
      / real (length ws))) ''keyword'') (set rs')"
    using Cons.prems rs'
    by (auto simp: Let_def py_truediv_def res_def split: if_splits)
  then show ?case
    using ih by (auto simp: res_def)
qed

lemma context_loop_no_nan:
  "context_loop ql docs = Inr rs \<Longrightarrow> \<forall>r \<in> set rs. similarity_score r \<noteq> NaN"
proof (induction docs arbitrary: rs)
  case Nil
  then show ?case by simp
next
  case (Cons d docs)
  show ?case
  proof (cases "context_loop ql docs")
    case (Inl e)
    with Cons.prems show ?thesis
      by (simp add: Let_def py_truediv_def split: if_splits)
  next
    case (Inr rs')
    then have ih: "\<forall>r \<in> set rs'. similarity_score r \<noteq> NaN"
      using Cons.IH by blast
    have "set rs \<subseteq> insert (res d (Num (real (length (filter
        (\<lambda>w. w \<in> set (split (lower (usage_context d)))) (remdups (split ql))))
        / real (length (split ql)))) ''context'') (set rs')"
      using Cons.prems Inr
      by (auto simp: Let_def py_truediv_def res_def split: if_splits)
    then show ?thesis
      using ih by (auto simp: res_def)
  qed
qed

lemma unique_loop_no_nan: "\<forall>r \<in> set (unique_loop m rs {} []). similarity_score r \<noteq> NaN"
proof
  fix r
  assume "r \<in> set (unique_loop m rs {} [])"
  then have "r \<in> set (filter (passes m) rs)"
    using first_by_name_subset [of "{}" "filter (passes m) rs"]
    by (auto simp: unique_loop_eq)
  then have "float_ge (similarity_score r) (Num m)"
    by (simp add: passes_def)
  then show "similarity_score r \<noteq> NaN"
    by (cases "similarity_score r") simp_all
qed

subsection \<open>Negative \<^verbatim>\<open>top_k\<close>\<close>

lemma keyword_search_docs:
  "api_docs a = api_docs b \<Longrightarrow> keyword_search a q k = keyword_search b q k"
  by (simp add: keyword_search_def)

lemma context_search_docs:
  "api_docs a = api_docs b \<Longrightarrow> context_search a q k = context_search b q k"
  by (simp add: context_search_def)

lemma semantic_search_no_docs:
  "api_docs st = [] \<Longrightarrow> fst (semantic_search rt loader st q k) = []"
  by (simp add: semantic_search_def init_embedding_model_def Let_def list_sort_def
      sort_desc_Nil slice_to_Nil split: option.splits)

lemma search_apis_is_fuse:
  assumes kw: "keyword_search st q k = Inr kw" and cx: "context_search st q k = Inr cx"
  shows "fst (search_apis rt loader st q k m) =
      Inr (fuse (fst (semantic_search rt loader st q (k * 2)) @ kw @ cx) k m)"
proof (cases "api_docs st = []")
  case True
  then have "kw = []" "cx = []"
    using kw cx
    by (simp_all add: keyword_search_def context_search_def sort_desc_Nil slice_to_Nil)
  then show ?thesis
    using True
    by (simp add: search_apis_def semantic_search_no_docs fuse_def sort_desc_Nil slice_to_Nil)
next
  case False
  let ?st1 = "snd (semantic_search rt loader st q (k * 2))"
  have d: "api_docs ?st1 = api_docs st"
    by (rule semantic_search_docs)
  have "keyword_search ?st1 q k = Inr kw" "context_search ?st1 q k = Inr cx"
    using kw cx keyword_search_docs [OF d] context_search_docs [OF d] by simp_all
  then show ?thesis
    by (simp add: search_apis_cases [OF False])
qed

text \<open>
  C6 (as the code has it). \<^verbatim>\<open>search_apis\<close> validates no argument. With a negative
  \<^verbatim>\<open>top_k\<close> and a query that has a token it returns a list, and this list: each of the
  keyword and context strategies returns its sorted candidates without the last
  \<open>- top_k\<close> of them, and the result is the fusion of the semantic, keyword and context
  lists so cut, that is the sorted list of the unique results at or above the threshold
  without its last \<open>- top_k\<close> entries. It is descending, at or above the threshold and
  free of duplicate identifiers.
\<close>

theorem search_apis_negative_top_k:
  assumes "k < 0" and "split (lower q) \<noteq> []"
  shows "\<exists>ks cs kw cx rs.
      keyword_loop (remdups (split (lower q))) (api_docs st) = Inr ks
      \<and> context_loop (lower q) (api_docs st) = Inr cs
      \<and> kw = take (length ks - nat (- k)) (sort_desc ks)
      \<and> cx = take (length cs - nat (- k)) (sort_desc cs)
      \<and> keyword_search st q k = Inr kw \<and> context_search st q k = Inr cx
      \<and> fst (search_apis rt loader st q k m) = Inr rs
      \<and> rs = fuse (fst (semantic_search rt loader st q (k * 2)) @ kw @ cx) k m
      \<and> rs = take
          (length (unique_loop m (fst (semantic_search rt loader st q (k * 2)) @ kw @ cx) {} [])
             - nat (- k))
          (sort_desc
             (unique_loop m (fst (semantic_search rt loader st q (k * 2)) @ kw @ cx) {} []))
      \<and> descending rs \<and> (\<forall>r \<in> set rs. passes m r) \<and> distinct (map doc_name rs)"
proof -
  obtain ks where ks: "keyword_loop (remdups (split (lower q))) (api_docs st) = Inr ks"
    using keyword_loop_returns by blast
  obtain cs where cs: "context_loop (lower q) (api_docs st) = Inr cs"
    using context_loop_returns [OF assms(2)] by blast
  define kw where "kw = take (length ks - nat (- k)) (sort_desc ks)"
  define cx where "cx = take (length cs - nat (- k)) (sort_desc cs)"
  define rs where "rs = fuse (fst (semantic_search rt loader st q (k * 2)) @ kw @ cx) k m"
  have kw: "keyword_search st q k = Inr kw"
    using assms(1) ks by (simp add: keyword_search_def slice_to_def kw_def length_sort_desc)
  have cx: "context_search st q k = Inr cx"
    using assms(1) cs by (simp add: context_search_def slice_to_def cx_def length_sort_desc)
  have r: "fst (search_apis rt loader st q k m) = Inr rs"
    unfolding rs_def using kw cx by (rule search_apis_is_fuse)
  have t: "rs = take
          (length (unique_loop m (fst (semantic_search rt loader st q (k * 2)) @ kw @ cx) {} [])
             - nat (- k))
          (sort_desc
             (unique_loop m (fst (semantic_search rt loader st q (k * 2)) @ kw @ cx) {} []))"
    using assms(1) by (simp add: rs_def fuse_def slice_to_def length_sort_desc)
  have c: "descending rs \<and> (\<forall>r \<in> set rs. passes m r) \<and> distinct (map doc_name rs)"
    using search_apis_contract [OF r] by blast
  from ks cs kw cx r t c show ?thesis
    unfolding kw_def [symmetric] cx_def [symmetric] rs_def [symmetric]
    using kw_def cx_def rs_def by blast
qed

theorem search_apis_negative_top_k_witness:
  "(- 1 :: int) < 0 \<and> split (lower ''run'') \<noteq> []
   \<and> keyword_search kb3 ''run'' (- 1) =
       Inr [res doc_run (Num 2) ''keyword'', res doc_sim (Num 1) ''keyword'']
   \<and> context_search kb3 ''run'' (- 1) = Inr []
   \<and> fst (semantic_search exact_runtime None kb3 ''run'' (- 1 * 2)) = []
   \<and> fst (search_apis exact_runtime None kb3 ''run'' (- 1) (3 / 10)) =
       Inr (fuse ([] @ [res doc_run (Num 2) ''keyword'', res doc_sim (Num 1) ''keyword''] @ [])
              (- 1) (3 / 10))
   \<and> fuse ([] @ [res doc_run (Num 2) ''keyword'', res doc_sim (Num 1) ''keyword''] @ [])
        (- 1) (3 / 10) = [res doc_run (Num 2) ''keyword'']"
proof -
  have 1: "(- 1 :: int) < 0"
    by simp
  have 2: "split (lower ''run'') \<noteq> []"
    by (simp add: split_def lower_def lower_char_def is_space_def)
  have 3: "keyword_search kb3 ''run'' (- 1) =
       Inr [res doc_run (Num 2) ''keyword'', res doc_sim (Num 1) ''keyword'']"
    by (simp add: eval_defs res_def)
  have 4: "context_search kb3 ''run'' (- 1) = Inr []"
    by (simp add: eval_defs res_def)
  have 5: "fst (semantic_search exact_runtime None kb3 ''run'' (- 1 * 2)) = []"
    by (simp add: semantic_search_def init_embedding_model_def kb3_def)
  have 6: "fuse ([] @ [res doc_run (Num 2) ''keyword'', res doc_sim (Num 1) ''keyword''] @ [])
        (- 1) (3 / 10) = [res doc_run (Num 2) ''keyword'']"
    by (simp add: fuse_def sort_desc_def slice_to_def res_def doc_run_def doc_sim_def)
  from search_apis_negative_top_k [OF 1 2, where st = kb3 and rt = exact_runtime
      and loader = None and m = "3 / 10"]
  have "fst (search_apis exact_runtime None kb3 ''run'' (- 1) (3 / 10)) =
       Inr (fuse ([] @ [res doc_run (Num 2) ''keyword'', res doc_sim (Num 1) ''keyword''] @ [])
              (- 1) (3 / 10))"
    using 3 4 5 by auto
  with 1 2 3 4 5 6 show ?thesis
    by blast
qed

theorem search_apis_negative_top_k_counterexample:
  "fst (search_apis exact_runtime None kb3 ''run'' (- 1) (3 / 10)) =
     Inr [res doc_run (Num 2) ''keyword'']"
  by (simp add: search_apis_def eval_defs res_def)

subsection \<open>Semantic scores\<close>

lemma not_passes_NaN: "\<not> passes m (res d NaN t)"
  by (simp add: passes_def res_def)

lemma semantic_loop_eq:
  "semantic_loop rt q docs =
     (if \<forall>d \<in> set docs. \<forall>e. embedding d = Some e \<longrightarrow> np_dot rt q e \<noteq> None
      then Some (map (\<lambda>d. res d (similarity rt q (the (embedding d))) ''semantic'')
                  (filter (\<lambda>d. embedding d \<noteq> None) docs))
      else None)"
proof (induction docs)
  case Nil
  show ?case by simp
next
  case (Cons d docs)
  show ?case
  proof (cases "embedding d")
    case None
    with Cons show ?thesis by simp
  next
    case (Some e)
    show ?thesis
    proof (cases "np_dot rt q e")
      case None
      with Some show ?thesis by auto
    next
      case p: (Some p)
      with Some Cons show ?thesis
        by (simp add: similarity_def res_def)
    qed
  qed
qed

lemma dot_all_zero_right: "all_zero e \<Longrightarrow> (\<Sum>(x, y) \<leftarrow> zip q e. x * y) = (0::real)"
proof (induction e arbitrary: q)
  case Nil
  show ?case by simp
next
  case (Cons y e)
  then show ?case
    by (cases q) (simp_all add: all_zero_def)
qed

lemma dot_all_zero_left: "all_zero q \<Longrightarrow> (\<Sum>(x, y) \<leftarrow> zip q e. x * y) = (0::real)"
proof (induction q arbitrary: e)
  case Nil
  show ?case by simp
next
  case (Cons x q)
  then show ?case
    by (cases e) (simp_all add: all_zero_def)
qed

lemma squares_all_zero: "all_zero v \<Longrightarrow> (\<Sum>x \<leftarrow> v. x * x) = (0::real)"
  by (induction v) (simp_all add: all_zero_def)

lemma similarity_all_zero:
  assumes "length q = length e" and "all_zero q \<or> all_zero e"
  shows "similarity exact_runtime q e = NaN"
proof -
  have d: "(\<Sum>(x, y) \<leftarrow> zip q e. x * y) = (0::real)"
    using assms(2) dot_all_zero_left dot_all_zero_right by blast
  have n: "sqrt (\<Sum>x \<leftarrow> q. x * x) * sqrt (\<Sum>x \<leftarrow> e. x * x) = 0"
    using assms(2) squares_all_zero by auto
  show ?thesis
    using assms(1) d n by (simp add: similarity_def exact_runtime_def)
qed

lemma semantic_search_with_model:
  "embedding_model st = Some mdl \<Longrightarrow> mdl query = Some q \<Longrightarrow>
   fst (semantic_search rt loader st query k) =
     (case semantic_loop rt q (api_docs st) of
        None \<Rightarrow> [] | Some rs \<Rightarrow> slice_to (list_sort rt rs) k)"
  by (simp add: semantic_search_def init_embedding_model_def split: option.splits)

text \<open>
  C4 (as the code has it). The loop of \<^verbatim>\<open>_semantic_search\<close> yields one result for
  every document that has an embedding, in corpus order, with the score
  \<^verbatim>\<open>np.dot(q, e) / (np.linalg.norm(q) * np.linalg.norm(e))\<close> as the library computes it,
  whatever the norms are; it skips only the documents without an embedding, and it
  yields nothing at all when \<^verbatim>\<open>np.dot\<close> raises for some document. For a query or an
  embedding all of whose components are zero the quotient is that of zero by zero, NaN.
  A NaN score never passes the threshold test of \<^verbatim>\<open>search_apis\<close>. With a model that
  encodes the query, \<^verbatim>\<open>_semantic_search\<close> returns the sorted results of the loop cut to
  \<^verbatim>\<open>top_k\<close>, and no candidate when the loop raised.
\<close>

theorem semantic_loop_scores:
  "semantic_loop rt q docs =
     (if \<forall>d \<in> set docs. \<forall>e. embedding d = Some e \<longrightarrow> np_dot rt q e \<noteq> None
      then Some (map (\<lambda>d. res d
                        (np_div rt (the (np_dot rt q (the (embedding d))))
                           (np_mul rt (np_norm rt q) (np_norm rt (the (embedding d)))))
                        ''semantic'')
                  (filter (\<lambda>d. embedding d \<noteq> None) docs))
      else None)
   \<and> (length q = length e \<and> (all_zero q \<or> all_zero e) \<longrightarrow>
        np_div exact_runtime (the (np_dot exact_runtime q e))
          (np_mul exact_runtime (np_norm exact_runtime q) (np_norm exact_runtime e)) = NaN)
   \<and> \<not> passes m (res d' NaN t)
   \<and> (embedding_model st = Some mdl \<and> mdl query = Some q \<longrightarrow>
        fst (semantic_search rt loader st query k) =
          (case semantic_loop rt q (api_docs st) of
             None \<Rightarrow> [] | Some rs \<Rightarrow> slice_to (list_sort rt rs) k))"
  using semantic_loop_eq [of rt q docs] similarity_all_zero [of q e] not_passes_NaN [of m d' t]
    semantic_search_with_model [of st mdl query q rt loader k]
  unfolding similarity_def by blast

theorem semantic_loop_scores_witness:
  "semantic_loop exact_runtime [1, 0] (api_docs kb3) =
     Some [res doc_run (Num 0) ''semantic'', res doc_sim (Num 1) ''semantic'',
           res doc_job NaN ''semantic'']
   \<and> length [1, 0 :: real] = length [0, 0 :: real] \<and> all_zero [0, 0]
   \<and> np_div exact_runtime (the (np_dot exact_runtime [1, 0] [0, 0]))
        (np_mul exact_runtime (np_norm exact_runtime [1, 0]) (np_norm exact_runtime [0, 0]))
       = NaN"
proof -
  have 1: "\<forall>d \<in> set (api_docs kb3). \<forall>e. embedding d = Some e
      \<longrightarrow> np_dot exact_runtime [1, 0] e \<noteq> None"
    by (simp add: kb3_def doc_run_def doc_sim_def doc_job_def exact_runtime_def)
  have 2: "map (\<lambda>d. res d
                        (np_div exact_runtime (the (np_dot exact_runtime [1, 0] (the (embedding d))))
                           (np_mul exact_runtime (np_norm exact_runtime [1, 0])
                              (np_norm exact_runtime (the (embedding d)))))
                        ''semantic'')
                  (filter (\<lambda>d. embedding d \<noteq> None) (api_docs kb3)) =
      [res doc_run (Num 0) ''semantic'', res doc_sim (Num 1) ''semantic'',
       res doc_job NaN ''semantic'']"
    by (simp add: kb3_def doc_run_def doc_sim_def doc_job_def exact_runtime_def)
  have 3: "length [1, 0 :: real] = length [0, 0 :: real] \<and> all_zero [0, 0]"
    by (simp add: all_zero_def)
  from semantic_loop_scores [where rt = exact_runtime and q = "[1, 0]"
      and docs = "api_docs kb3" and e = "[0, 0]" and m = 0 and d' = doc_job
      and t = "''semantic''" and st = kb3 and mdl = encoder and query = "''run''"
      and loader = None and k = 10]
  have "semantic_loop exact_runtime [1, 0] (api_docs kb3) =
     Some [res doc_run (Num 0) ''semantic'', res doc_sim (Num 1) ''semantic'',
           res doc_job NaN ''semantic'']"
    and "np_div exact_runtime (the (np_dot exact_runtime [1, 0] [0, 0]))
        (np_mul exact_runtime (np_norm exact_runtime [1, 0]) (np_norm exact_runtime [0, 0]))
       = NaN"
    using 1 2 3 by simp_all
  with 3 show ?thesis
    by blast
qed

theorem semantic_search_zero_norm_counterexample:
  "embedding doc_job = Some [0, 0] \<and> all_zero [0, 0]
   \<and> fst (semantic_search exact_runtime (Some encoder)
        \<lparr>api_docs = [doc_job], embedding_model = None, embedding_cache = empty_cache\<rparr>
        ''run'' (5 * 2)) = [res doc_job NaN ''semantic'']"
  by (simp add: eval_defs res_def all_zero_def)

subsection \<open>Writes of the cache file\<close>









end
